theory Spec2Isabelle
  imports Complex_Main "HOL-Library.Log_Nat"
begin

section \<open>Data model of \<^verbatim>\<open>backend/server.py\<close>\<close>

text \<open>
  The documents the engine works on are the dictionaries that the store hands back.
  Amounts are Python floats, that is IEEE 754 doubles; a double is modelled by the real
  number it stands for.  The subtractions of the reconciliation engine round their result
  to the nearest double, as the source's do.  The statistical detector and the quality
  scorer are modelled in the exact arithmetic of the reals.
  The store's \<^verbatim>\<open>_id\<close> (an ObjectId) is a natural number.  The fields \<^verbatim>\<open>id\<close> and
  \<^verbatim>\<open>created_at\<close> of the result models are filled by \<^verbatim>\<open>uuid4\<close> and the clock and
  take no part in any decision; they are left out.
\<close>

type_synonym oid = nat

record transaction =
  txn_id :: string
  txn_date :: string
  amount :: real
  txn_account_id :: string
  counterparty :: string

record gl_entry =
  gl_oid :: oid
  gl_id :: string
  gl_date :: string
  debit_amount :: real
  credit_amount :: real
  gl_account_id :: string

datatype status = matched | missing_transaction | missing_gl | amount_mismatch

record reconciliation_result =
  status :: status
  transaction_id :: "string option"
  res_gl_id :: "string option"
  res_account_id :: string
  res_date :: string
  amount_difference :: "real option"

section \<open>Double-precision arithmetic\<close>

text \<open>
  \<open>round_to_double\<close> is the rounding of IEEE 754 binary64 arithmetic: to the nearest
  number with a significand of 53 bits, a tie going to the even significand.
  \<open>double_exponent x\<close> is the exponent \<open>e\<close> with \<open>2 ^ e \<le> \<bar>x\<bar> < 2 ^ (e + 1)\<close>.  The
  exponent range is not bounded here.  For the difference of two doubles this changes
  nothing below the range, where the difference is a double itself; a result above the
  range, which is infinite in the source, is here a real above every double, and both
  fail the two comparisons of the matcher.
\<close>

definition round_half_even :: "real \<Rightarrow> int" where
  "round_half_even y =
     (let f = \<lfloor>y\<rfloor>; r = y - of_int f
      in if r < 1 / 2 then f else if r > 1 / 2 then f + 1 else if even f then f else f + 1)"

definition double_exponent :: "real \<Rightarrow> int" where
  "double_exponent x =
     (if 1 \<le> \<bar>x\<bar> then bitlen \<lfloor>\<bar>x\<bar>\<rfloor> - 1 else - bitlen (\<lceil>1 / \<bar>x\<bar>\<rceil> - 1))"

definition round_to_double :: "real \<Rightarrow> real" where
  "round_to_double x =
     (if x = 0 then 0
      else (let e = double_exponent x
            in of_int (round_half_even (x / 2 powi (e - 52))) * 2 powi (e - 52)))"

text \<open>The subtraction \<^verbatim>\<open>a - b\<close> of two Python floats.\<close>

definition float_sub :: "real \<Rightarrow> real \<Rightarrow> real" where
  "float_sub a b = round_to_double (a - b)"

section \<open>Reconciliation engine\<close>

text \<open>
  The inner \<^verbatim>\<open>for gl in gl_entries\<close> loop of \<^verbatim>\<open>reconcile_transactions\<close>.  It returns the
  result built at the \<^verbatim>\<open>break\<close> together with the \<^verbatim>\<open>_id\<close> added to \<^verbatim>\<open>matched_gl_ids\<close>,
  or \<open>None\<close> when the loop runs to its end with \<^verbatim>\<open>matched\<close> still false.  The literal
  \<^verbatim>\<open>0.01\<close> is the double nearest to one hundredth; \<^verbatim>\<open>100\<close> is an integer and is compared
  as it is.
\<close>

fun scan_gl :: "transaction \<Rightarrow> gl_entry list \<Rightarrow> oid set \<Rightarrow> (reconciliation_result \<times> oid) option" where
  "scan_gl txn [] matched_gl_ids = None"
| "scan_gl txn (gl # gl_entries) matched_gl_ids =
     (if gl_account_id gl = txn_account_id txn \<and> gl_date gl = txn_date txn
         \<and> gl_oid gl \<notin> matched_gl_ids
      then
        (let gl_amount = float_sub (debit_amount gl) (credit_amount gl) in
         if \<bar>float_sub gl_amount (amount txn)\<bar> < round_to_double 0.01 then
           Some (\<lparr>status = matched, transaction_id = Some (txn_id txn),
                   res_gl_id = Some (gl_id gl), res_account_id = txn_account_id txn,
                   res_date = txn_date txn, amount_difference = Some 0\<rparr>, gl_oid gl)
         else if \<bar>float_sub gl_amount (amount txn)\<bar> < 100 then
           Some (\<lparr>status = amount_mismatch, transaction_id = Some (txn_id txn),
                   res_gl_id = Some (gl_id gl), res_account_id = txn_account_id txn,
                   res_date = txn_date txn,
                   amount_difference = Some (float_sub gl_amount (amount txn))\<rparr>, gl_oid gl)
         else scan_gl txn gl_entries matched_gl_ids)
      else scan_gl txn gl_entries matched_gl_ids)"

definition missing_gl_result :: "transaction \<Rightarrow> reconciliation_result" where
  "missing_gl_result txn =
     \<lparr>status = missing_gl, transaction_id = Some (txn_id txn), res_gl_id = None,
      res_account_id = txn_account_id txn, res_date = txn_date txn,
      amount_difference = None\<rparr>"

definition missing_transaction_result :: "gl_entry \<Rightarrow> reconciliation_result" where
  "missing_transaction_result gl =
     \<lparr>status = missing_transaction, transaction_id = None, res_gl_id = Some (gl_id gl),
      res_account_id = gl_account_id gl, res_date = gl_date gl,
      amount_difference = None\<rparr>"

text \<open>
  The outer \<^verbatim>\<open>for txn in transactions\<close> loop.  Its state is the pair of the list
  \<^verbatim>\<open>results\<close> and the set \<^verbatim>\<open>matched_gl_ids\<close>.
\<close>

fun match_loop ::
  "transaction list \<Rightarrow> gl_entry list \<Rightarrow> reconciliation_result list \<times> oid set
     \<Rightarrow> reconciliation_result list \<times> oid set" where
  "match_loop [] gl_entries st = st"
| "match_loop (txn # transactions) gl_entries (results, matched_gl_ids) =
     (case scan_gl txn gl_entries matched_gl_ids of
        Some (result, i) \<Rightarrow>
          match_loop transactions gl_entries (results @ [result], insert i matched_gl_ids)
      | None \<Rightarrow>
          match_loop transactions gl_entries (results @ [missing_gl_result txn], matched_gl_ids))"

text \<open>The second loop: one \<^verbatim>\<open>missing_transaction\<close> per GL entry whose \<^verbatim>\<open>_id\<close> was never added.\<close>

fun unmatched_loop ::
  "gl_entry list \<Rightarrow> oid set \<Rightarrow> reconciliation_result list \<Rightarrow> reconciliation_result list" where
  "unmatched_loop [] matched_gl_ids results = results"
| "unmatched_loop (gl # gl_entries) matched_gl_ids results =
     (if gl_oid gl \<notin> matched_gl_ids
      then unmatched_loop gl_entries matched_gl_ids (results @ [missing_transaction_result gl])
      else unmatched_loop gl_entries matched_gl_ids results)"

text \<open>The list \<^verbatim>\<open>results\<close> as it stands when the function starts to store it.\<close>

definition reconcile :: "transaction list \<Rightarrow> gl_entry list \<Rightarrow> reconciliation_result list" where
  "reconcile transactions gl_entries =
     (case match_loop transactions gl_entries ([], {}) of
        (results, matched_gl_ids) \<Rightarrow> unmatched_loop gl_entries matched_gl_ids results)"

section \<open>The persisted result collections\<close>







section \<open>Statistical anomaly detection\<close>

datatype anomaly_type = statistical | ml_isolation_forest | ml_one_class_svm

datatype detection_method = z_score | iqr | isolation_forest | one_class_svm

record anomaly_result =
  anomaly_transaction_id :: string
  anomaly_type :: anomaly_type
  anomaly_score :: real
  is_anomaly :: bool
  detection_method :: detection_method

definition mean :: "real list \<Rightarrow> real" where
  "mean a = sum_list a / real (length a)"

text \<open>The population standard deviation (\<^verbatim>\<open>ddof = 0\<close>).\<close>

definition std :: "real list \<Rightarrow> real" where
  "std a = sqrt (sum_list (map (\<lambda>x. (x - mean a)\<^sup>2) a) / real (length a))"

text \<open>
  Modelled from the spec: \<^verbatim>\<open>scipy.stats.zscore\<close> is a library function and not under
  \<^verbatim>\<open>src/\<close>.  The spec calls it the population standard score of \<^verbatim>\<open>amount\<close>, mean and
  standard deviation taken over the full population.  For an input whose elements are all
  equal the library returns not-a-number in every position; not-a-number is \<open>None\<close> here.
\<close>

definition zscore :: "real list \<Rightarrow> real option list" where
  "zscore a =
     (let mn = mean a; sd = std a; isconst = list_all (\<lambda>x. x = hd a) a
      in map (\<lambda>x. if isconst then None else Some ((x - mn) / sd)) a)"

text \<open>
  Modelled from the spec: \<^verbatim>\<open>Series.quantile\<close> and \<^verbatim>\<open>Series.median\<close> are library
  functions and not under \<^verbatim>\<open>src/\<close>.  The spec calls them the quartiles and the median of
  \<^verbatim>\<open>amount\<close>; the quantile interpolates linearly between the two neighbouring order
  statistics, which is the library's default.  Both are used on five values or more, where
  every index below is in range.
\<close>

definition quantile :: "real list \<Rightarrow> real \<Rightarrow> real" where
  "quantile a q =
     (let s = sort a; h = real (length a - 1) * q; lo = nat \<lfloor>h\<rfloor>; hi = nat \<lceil>h\<rceil>
      in s ! lo + (h - real lo) * (s ! hi - s ! lo))"

definition median :: "real list \<Rightarrow> real" where
  "median a =
     (let s = sort a; n = length a
      in if odd n then s ! (n div 2) else (s ! (n div 2 - 1) + s ! (n div 2)) / 2)"

text \<open>
  The loop over \<^verbatim>\<open>z_anomalies\<close>: the rows whose absolute z-score is above 3, in the order
  of the data frame.  A comparison with not-a-number is false.
\<close>

fun z_loop :: "(transaction \<times> real option) list \<Rightarrow> anomaly_result list \<Rightarrow> anomaly_result list" where
  "z_loop [] anomalies = anomalies"
| "z_loop ((txn, z) # rows) anomalies =
     (case z of
        None \<Rightarrow> z_loop rows anomalies
      | Some s \<Rightarrow>
          if s > 3 then
            z_loop rows (anomalies @
              [\<lparr>anomaly_transaction_id = txn_id txn, anomaly_type = statistical,
                anomaly_score = s, is_anomaly = True, detection_method = z_score\<rparr>])
          else z_loop rows anomalies)"

text \<open>
  The loop over \<^verbatim>\<open>iqr_anomalies\<close>: the rows outside the two bounds, each added unless
  its \<^verbatim>\<open>txn_id\<close> is the \<^verbatim>\<open>transaction_id\<close> of an anomaly already in the list.
\<close>

fun iqr_loop ::
  "transaction list \<Rightarrow> real \<Rightarrow> real \<Rightarrow> real \<Rightarrow> anomaly_result list \<Rightarrow> anomaly_result list" where
  "iqr_loop [] lower_bound upper_bound med anomalies = anomalies"
| "iqr_loop (txn # rows) lower_bound upper_bound med anomalies =
     (if amount txn < lower_bound \<or> amount txn > upper_bound then
        (if txn_id txn \<notin> set (map anomaly_transaction_id anomalies) then
           iqr_loop rows lower_bound upper_bound med (anomalies @
             [\<lparr>anomaly_transaction_id = txn_id txn, anomaly_type = statistical,
               anomaly_score = \<bar>amount txn - med\<bar>, is_anomaly = True,
               detection_method = iqr\<rparr>])
         else iqr_loop rows lower_bound upper_bound med anomalies)
      else iqr_loop rows lower_bound upper_bound med anomalies)"

definition detect_anomalies_statistical :: "transaction list \<Rightarrow> anomaly_result list" where
  "detect_anomalies_statistical transactions =
     (if length transactions < 5 then []
      else
        (let amounts = map amount transactions;
             z_scores = map (map_option abs) (zscore amounts);
             anomalies = z_loop (zip transactions z_scores) [];
             Q1 = quantile amounts 0.25;
             Q3 = quantile amounts 0.75;
             IQR = Q3 - Q1;
             lower_bound = Q1 - 1.5 * IQR;
             upper_bound = Q3 + 1.5 * IQR
         in iqr_loop transactions lower_bound upper_bound (median amounts) anomalies))"

section \<open>Machine-learning anomaly detection\<close>

text \<open>
  The date parser, the scaler and the two estimators are library code.  They are
  parameters of the model: \<open>to_datetime\<close> gives the day of the week and the hour of every
  row, or \<open>None\<close> where the parser raises; \<open>fit_transform\<close> is the scaler; \<open>iso_forest\<close>
  and \<open>svm_model\<close> give the prediction and the decision-function value of the row at an
  index of the scaled features.
\<close>

record ml_library =
  to_datetime :: "string list \<Rightarrow> (nat \<times> nat) list option"
  fit_transform :: "real list list \<Rightarrow> real list list"
  iso_forest :: "real list list \<Rightarrow> nat \<Rightarrow> int \<times> real"
  svm_model :: "real list list \<Rightarrow> nat \<Rightarrow> int \<times> real"

definition ml_features :: "ml_library \<Rightarrow> transaction list \<Rightarrow> real list list" where
  "ml_features lib transactions =
     (case to_datetime lib (map txn_date transactions) of
        Some dts \<Rightarrow> map (\<lambda>(txn, (dow, hour)). [amount txn, real dow, real hour]) (zip transactions dts)
      | None \<Rightarrow> map (\<lambda>txn. [amount txn, 0, 12]) transactions)"

fun iso_loop ::
  "(nat \<Rightarrow> int \<times> real) \<Rightarrow> transaction list \<Rightarrow> nat list \<Rightarrow> anomaly_result list \<Rightarrow> anomaly_result list" where
  "iso_loop predict df [] anomalies = anomalies"
| "iso_loop predict df (idx # idxs) anomalies =
     (case predict idx of (prediction, score) \<Rightarrow>
        if prediction = - 1 then
          iso_loop predict df idxs (anomalies @
            [\<lparr>anomaly_transaction_id = txn_id (df ! idx), anomaly_type = ml_isolation_forest,
              anomaly_score = \<bar>score\<bar>, is_anomaly = True, detection_method = isolation_forest\<rparr>])
        else iso_loop predict df idxs anomalies)"

fun svm_loop ::
  "(nat \<Rightarrow> int \<times> real) \<Rightarrow> transaction list \<Rightarrow> nat list \<Rightarrow> anomaly_result list \<Rightarrow> anomaly_result list" where
  "svm_loop predict df [] anomalies = anomalies"
| "svm_loop predict df (idx # idxs) anomalies =
     (case predict idx of (prediction, score) \<Rightarrow>
        if prediction = - 1 then
          (if txn_id (df ! idx) \<notin> set (map anomaly_transaction_id anomalies) then
             svm_loop predict df idxs (anomalies @
               [\<lparr>anomaly_transaction_id = txn_id (df ! idx), anomaly_type = ml_one_class_svm,
                 anomaly_score = \<bar>score\<bar>, is_anomaly = True, detection_method = one_class_svm\<rparr>])
           else svm_loop predict df idxs anomalies)
        else svm_loop predict df idxs anomalies)"

definition detect_anomalies_ml :: "ml_library \<Rightarrow> transaction list \<Rightarrow> anomaly_result list" where
  "detect_anomalies_ml lib transactions =
     (if length transactions < 10 then []
      else
        (let features_scaled = fit_transform lib (ml_features lib transactions);
             idxs = [0 ..< length transactions];
             anomalies = iso_loop (iso_forest lib features_scaled) transactions idxs []
         in svm_loop (svm_model lib features_scaled) transactions idxs anomalies))"

section \<open>The anomaly run\<close>




section \<open>Data quality\<close>

text \<open>
  A data frame is its list of column names and its list of rows; a cell is missing, a
  number or a text.  In a frame each row has one cell per column.
\<close>

datatype cell = Missing | Num real | Str string

record data_frame =
  columns :: "string list"
  df_rows :: "cell list list"

datatype issue = Negative_amounts nat | Inconsistent_dates

datatype py_error = TypeError

record data_quality_report =
  dataset_name :: string
  total_records :: nat
  completeness_score :: "real option"
  consistency_score :: real
  duplicate_count :: nat
  quality_score :: "real option"
  issues :: "issue list"

text \<open>\<^verbatim>\<open>df.count().sum()\<close>: the number of cells that are not missing.\<close>

definition count_sum :: "data_frame \<Rightarrow> nat" where
  "count_sum df = sum_list (map (\<lambda>row. length (filter (\<lambda>c. c \<noteq> Missing) row)) (df_rows df))"

text \<open>\<^verbatim>\<open>df[name]\<close> for a name among the columns: the cells of the first column of that name.\<close>

fun index_of :: "string \<Rightarrow> string list \<Rightarrow> nat" where
  "index_of name [] = 0"
| "index_of name (c # cs) = (if c = name then 0 else Suc (index_of name cs))"

definition column :: "data_frame \<Rightarrow> string \<Rightarrow> cell list" where
  "column df name = map (\<lambda>row. row ! index_of name (columns df)) (df_rows df)"

text \<open>\<^verbatim>\<open>df.duplicated().sum()\<close>: the rows equal to a row above them.\<close>

fun duplicated_sum :: "cell list list \<Rightarrow> cell list list \<Rightarrow> nat" where
  "duplicated_sum [] seen = 0"
| "duplicated_sum (row # rows) seen =
     (if row \<in> set seen then 1 else 0) + duplicated_sum rows (row # seen)"

text \<open>
  \<^verbatim>\<open>round(x, 2)\<close>: to the nearest multiple of one hundredth, a tie going to the even
  neighbour.
\<close>

definition round2 :: "real \<Rightarrow> real" where
  "round2 x =
     (let y = x * 100; f = \<lfloor>y\<rfloor>; r = y - of_int f
      in of_int (if r < 1 / 2 then f else if r > 1 / 2 then f + 1
                 else if even f then f else f + 1) / 100)"

text \<open>
  \<^verbatim>\<open>(df['amount'] < 0).sum()\<close>: a missing cell compares false, a text raises
  \<^verbatim>\<open>TypeError\<close>.
\<close>

definition negative_sum :: "cell list \<Rightarrow> py_error + nat" where
  "negative_sum cells =
     (if \<exists>c \<in> set cells. case c of Str s \<Rightarrow> True | _ \<Rightarrow> False then Inl TypeError
      else Inr (length (filter (\<lambda>c. case c of Num x \<Rightarrow> x < 0 | _ \<Rightarrow> False) cells)))"

text \<open>
  \<^verbatim>\<open>calculate_data_quality\<close>.  The date parser is library code: \<open>parses\<close> says whether
  \<^verbatim>\<open>pd.to_datetime\<close> returns on the cells of the \<^verbatim>\<open>date\<close> column.  The division of the
  completeness score is numpy's, which gives not-a-number for a frame without cells;
  not-a-number is \<open>None\<close>.
\<close>

definition calculate_data_quality ::
  "(cell list \<Rightarrow> bool) \<Rightarrow> data_frame \<Rightarrow> string \<Rightarrow> py_error + data_quality_report" where
  "calculate_data_quality parses df name =
     (let total = length (df_rows df);
          cells = length (df_rows df) * length (columns df);
          completeness = (if cells = 0 then None
                          else Some (real (count_sum df) / real cells * 100));
          duplicates = duplicated_sum (df_rows df) []
      in
        case (if ''amount'' \<in> set (columns df) then negative_sum (column df ''amount'')
              else Inr 0) of
          Inl e \<Rightarrow> Inl e
        | Inr negative_amounts \<Rightarrow>
            (let issues1 = (if negative_amounts > 0 then [Negative_amounts negative_amounts] else []);
                 score1 = (if negative_amounts > 0 then 100 - 10 else 100);
                 bad_dates = (''date'' \<in> set (columns df) \<and> \<not> parses (column df ''date''));
                 issues2 = (if bad_dates then issues1 @ [Inconsistent_dates] else issues1);
                 score2 = (if bad_dates then score1 - 15 else score1)
             in Inr \<lparr>dataset_name = name, total_records = total,
                      completeness_score = map_option round2 completeness,
                      consistency_score = round2 score2,
                      duplicate_count = duplicates,
                      quality_score = map_option (\<lambda>c. round2 ((c + score2) / 2)) completeness,
                      issues = issues2\<rparr>))"

section \<open>Notions used in the statements\<close>

text \<open>The set \<^verbatim>\<open>matched_gl_ids\<close> as the first loop leaves it.\<close>

definition claimed_gl_ids :: "transaction list \<Rightarrow> gl_entry list \<Rightarrow> oid set" where
  "claimed_gl_ids transactions gl_entries = snd (match_loop transactions gl_entries ([], {}))"

text \<open>The two statuses whose result is built together with an addition to \<^verbatim>\<open>matched_gl_ids\<close>.\<close>

definition claiming :: "reconciliation_result \<Rightarrow> bool" where
  "claiming r = (status r = matched \<or> status r = amount_mismatch)"

text \<open>
  The difference \<^verbatim>\<open>gl_amount - txn['amount']\<close> as the inner loop computes it, each of the
  two subtractions rounded.
\<close>

definition computed_difference :: "gl_entry \<Rightarrow> transaction \<Rightarrow> real" where
  "computed_difference gl txn =
     float_sub (float_sub (debit_amount gl) (credit_amount gl)) (amount txn)"

text \<open>
  The GL entries at which the inner loop stops for a transaction: same account and date,
  \<^verbatim>\<open>_id\<close> not in the set, and a computed difference of less than 100.
\<close>

definition eligible :: "transaction \<Rightarrow> oid set \<Rightarrow> gl_entry \<Rightarrow> bool" where
  "eligible txn matched_gl_ids gl =
     (gl_account_id gl = txn_account_id txn \<and> gl_date gl = txn_date txn
      \<and> gl_oid gl \<notin> matched_gl_ids
      \<and> \<bar>computed_difference gl txn\<bar> < 100)"

section \<open>Example documents\<close>

text \<open>Concrete documents, in the shape of the sample files of \<^verbatim>\<open>backend_test.py\<close>.\<close>

definition mk_txn :: "string \<Rightarrow> real \<Rightarrow> transaction" where
  "mk_txn i a = \<lparr>txn_id = i, txn_date = ''2024-01-15'', amount = a,
                 txn_account_id = ''ACC123'', counterparty = ''Customer A''\<rparr>"

definition mk_gl :: "oid \<Rightarrow> string \<Rightarrow> real \<Rightarrow> gl_entry" where
  "mk_gl n i d = \<lparr>gl_oid = n, gl_id = i, gl_date = ''2024-01-15'', debit_amount = d,
                  credit_amount = 0, gl_account_id = ''ACC123''\<rparr>"

text \<open>A library whose date parser raises and whose estimators flag no row.\<close>

definition quiet_lib :: ml_library where
  "quiet_lib = \<lparr>to_datetime = (\<lambda>dates. None), fit_transform = (\<lambda>features. features),
                iso_forest = (\<lambda>features idx. (1, 0)), svm_model = (\<lambda>features idx. (1, 0))\<rparr>"

text \<open>
  A frame of 4 rows and 5 columns in the shape of the transactions file; its third row is
  missing in every column.
\<close>

definition null_row_frame :: data_frame where
  "null_row_frame =
     \<lparr>columns = [''txn_id'', ''date'', ''amount'', ''account_id'', ''counterparty''],
      df_rows =
        [[Str ''TXN001'', Str ''2024-01-15'', Num 1500, Str ''ACC123'', Str ''Customer A''],
         [Str ''TXN002'', Str ''2024-01-15'', Num 2300, Str ''ACC124'', Str ''Customer B''],
         [Missing, Missing, Missing, Missing, Missing],
         [Str ''TXN004'', Str ''2024-01-16'', Num (- 750), Str ''ACC125'', Str ''Customer C'']]\<rparr>"

subsection \<open>Notions and documents for the anomaly detectors\<close>










section \<open>Properties of the double-precision arithmetic\<close>

lemma round_half_even_of_int [simp]: "round_half_even (of_int j) = j"
  unfolding round_half_even_def Let_def by simp

lemma floor_log2_eq:
  assumes "2 powi e \<le> \<bar>x\<bar>" and "\<bar>x\<bar> < 2 powi (e + 1)"
  shows "\<lfloor>log 2 \<bar>x\<bar>\<rfloor> = e"
proof -
  have pos: "0 < \<bar>x\<bar>" using assms(1) by (smt (verit) zero_less_power_int)
  have a: "(2::real) powr real_of_int e = 2 powi e" by (simp add: powr_real_of_int')
  have b: "(2::real) powr (real_of_int e + 1) = 2 powi (e + 1)"
    using powr_real_of_int' [of "2::real" "e + 1"] by simp
  have "(2::real) powr real_of_int e \<le> \<bar>x\<bar> \<and> \<bar>x\<bar> < 2 powr (real_of_int e + 1)"
    unfolding a b using assms by simp
  then show ?thesis using pos floor_log_eq_powr_iff [of "\<bar>x\<bar>" 2 e] by simp
qed

lemma bitlen_pos: "0 < n \<Longrightarrow> 1 \<le> bitlen n"
  by (simp add: bitlen_alt_def)

lemma double_exponent_bounds:
  assumes "x \<noteq> 0"
  shows "2 powi double_exponent x \<le> \<bar>x\<bar>" and "\<bar>x\<bar> < 2 powi (double_exponent x + 1)"
proof -
  have "2 powi double_exponent x \<le> \<bar>x\<bar> \<and> \<bar>x\<bar> < 2 powi (double_exponent x + 1)"
  proof (cases "1 \<le> \<bar>x\<bar>")
    case True
    define n where "n = \<lfloor>\<bar>x\<bar>\<rfloor>"
    define b where "b = bitlen n"
    have n1: "1 \<le> n" using True by (simp add: n_def le_floor_iff)
    then have b1: "1 \<le> b" unfolding b_def by (intro bitlen_pos) simp
    have bb: "2 ^ nat (b - 1) \<le> n" "n < 2 ^ nat b"
      using bitlen_bounds [of n] n1 by (simp_all add: b_def)
    have e: "double_exponent x = b - 1" using True by (simp add: double_exponent_def n_def b_def)
    have "(2::real) powi (b - 1) = 2 ^ nat (b - 1)" using b1 by (simp add: power_int_def)
    also have "\<dots> = of_int (2 ^ nat (b - 1))" by simp
    also have "\<dots> \<le> of_int n" using bb(1) by (simp only: of_int_le_iff)
    also have "\<dots> \<le> \<bar>x\<bar>" by (simp add: n_def)
    finally have lo: "2 powi (b - 1) \<le> \<bar>x\<bar>" .
    have "n + 1 \<le> 2 ^ nat b" using bb(2) by simp
    then have "real_of_int (n + 1) \<le> of_int (2 ^ nat b)" by (simp only: of_int_le_iff)
    moreover have "real_of_int (2 ^ nat b) = 2 ^ nat b" by simp
    moreover have "\<bar>x\<bar> < real_of_int (n + 1)" unfolding n_def by linarith
    moreover have "(2::real) powi b = 2 ^ nat b" using b1 by (simp add: power_int_def)
    ultimately have hi: "\<bar>x\<bar> < 2 powi b" by linarith
    show ?thesis using lo hi by (simp add: e)
  next
    case False
    define y where "y = 1 / \<bar>x\<bar>"
    define c where "c = \<lceil>y\<rceil>"
    define n where "n = c - 1"
    define b where "b = bitlen n"
    have xpos: "0 < \<bar>x\<bar>" using assms by simp
    have y1: "1 < y" using False xpos by (simp add: y_def)
    have xy: "\<bar>x\<bar> = 1 / y" using xpos by (simp add: y_def)
    have ny: "real_of_int n < y" unfolding n_def c_def by linarith
    have yc: "y \<le> real_of_int c" unfolding c_def by linarith
    have "1 < real_of_int c" using y1 yc by linarith
    then have c2: "2 \<le> c" by linarith
    then have n1: "1 \<le> n" by (simp add: n_def)
    then have b1: "1 \<le> b" unfolding b_def by (intro bitlen_pos) simp
    have bb: "2 ^ nat (b - 1) \<le> n" "n < 2 ^ nat b"
      using bitlen_bounds [of n] n1 by (simp_all add: b_def)
    have e: "double_exponent x = - b"
      using False by (simp add: double_exponent_def n_def b_def c_def y_def)
    have "c \<le> 2 ^ nat b" using bb(2) by (simp add: n_def)
    then have "real_of_int c \<le> of_int (2 ^ nat b)" by (simp only: of_int_le_iff)
    moreover have "real_of_int (2 ^ nat b) = 2 ^ nat b" by simp
    ultimately have "y \<le> 2 ^ nat b" using yc by linarith
    then have "1 / (2 ^ nat b) \<le> 1 / y" using y1 by (intro divide_left_mono) simp_all
    moreover have "(2::real) powi (- b) = 1 / 2 ^ nat b"
    proof -
      have "(2::real) powi b = 2 ^ nat b" using b1 by (simp add: power_int_def)
      moreover have "(2::real) powi (- b) = inverse (2 powi b)" by (rule power_int_minus)
      ultimately show ?thesis by (simp only: inverse_eq_divide)
    qed
    ultimately have lo: "2 powi (- b) \<le> \<bar>x\<bar>" by (simp add: xy)
    have "real_of_int (2 ^ nat (b - 1)) \<le> of_int n" using bb(1) by (simp only: of_int_le_iff)
    moreover have "real_of_int (2 ^ nat (b - 1)) = 2 ^ nat (b - 1)" by simp
    ultimately have "2 ^ nat (b - 1) < y" using ny by linarith
    then have "1 / y < 1 / (2 ^ nat (b - 1))"
      using y1 by (intro divide_strict_left_mono mult_pos_pos) simp_all
    moreover have "(2::real) powi (- b + 1) = 1 / 2 ^ nat (b - 1)"
    proof -
      have "(2::real) powi (b - 1) = 2 ^ nat (b - 1)" using b1 by (simp add: power_int_def)
      moreover have "(2::real) powi (- (b - 1)) = inverse (2 powi (b - 1))"
        by (rule power_int_minus)
      moreover have "- b + 1 = - (b - 1)" by simp
      ultimately show ?thesis by (simp only: inverse_eq_divide)
    qed
    ultimately have hi: "\<bar>x\<bar> < 2 powi (- b + 1)" by (simp add: xy)
    show ?thesis using lo hi by (simp add: e)
  qed
  then show "2 powi double_exponent x \<le> \<bar>x\<bar>" and "\<bar>x\<bar> < 2 powi (double_exponent x + 1)"
    by simp_all
qed

lemma double_exponent_floor_log: "x \<noteq> 0 \<Longrightarrow> double_exponent x = \<lfloor>log 2 \<bar>x\<bar>\<rfloor>"
  using floor_log2_eq [OF double_exponent_bounds] by simp

lemma double_exponent_eq:
  assumes "2 powi e \<le> \<bar>x\<bar>" and "\<bar>x\<bar> < 2 powi (e + 1)"
  shows "double_exponent x = e"
proof -
  have "x \<noteq> 0" using assms(1) by (smt (verit) zero_less_power_int abs_zero)
  then show ?thesis using double_exponent_floor_log floor_log2_eq [OF assms] by simp
qed

lemma round_to_double_eval:
  assumes "2 powi e \<le> \<bar>x\<bar>" and "\<bar>x\<bar> < 2 powi (e + 1)"
  shows "round_to_double x = of_int (round_half_even (x / 2 powi (e - 52))) * 2 powi (e - 52)"
proof -
  have "x \<noteq> 0" using assms(1) by (smt (verit) zero_less_power_int abs_zero)
  then show ?thesis by (simp add: round_to_double_def Let_def double_exponent_eq [OF assms])
qed

lemma round_to_double_exact:
  assumes "\<bar>m\<bar> < 2 ^ 53"
  shows "round_to_double (of_int m * 2 powi k) = of_int m * 2 powi k"
proof (cases "m = 0")
  case True
  then show ?thesis by (simp add: round_to_double_def)
next
  case False
  let ?x = "of_int m * 2 powi k :: real"
  define e where "e = double_exponent ?x"
  have x0: "?x \<noteq> 0" using False by simp
  have lo: "2 powi e \<le> \<bar>?x\<bar>" unfolding e_def using double_exponent_bounds(1) [OF x0] .
  have "\<bar>?x\<bar> = \<bar>of_int m\<bar> * 2 powi k" by (simp add: abs_mult)
  also have "\<dots> < 2 ^ 53 * 2 powi k"
  proof -
    have "\<bar>real_of_int m\<bar> < 2 ^ 53"
      using assms by (metis of_int_abs of_int_less_numeral_power_cancel_iff)
    then show ?thesis by (simp add: mult_strict_right_mono)
  qed
  also have "\<dots> = 2 powi (53 + k)" by (simp add: power_int_add)
  finally have "(2::real) powi e < 2 powi (53 + k)" using lo by linarith
  then have "e < 53 + k"
    by (smt (verit) power_int_increasing)
  then have n: "0 \<le> k - e + 52" by linarith
  define n where "n = nat (k - e + 52)"
  have kn: "k = int n + (e - 52)" using n by (simp add: n_def)
  have pk: "(2::real) powi k = 2 ^ n * 2 powi (e - 52)"
    unfolding kn by (simp add: power_int_add)
  have q: "?x / 2 powi (e - 52) = of_int (m * 2 ^ n)"
    unfolding pk by simp
  have "round_to_double ?x = of_int (round_half_even (?x / 2 powi (e - 52))) * 2 powi (e - 52)"
    using x0 unfolding round_to_double_def Let_def e_def by simp
  also have "\<dots> = of_int (m * 2 ^ n) * 2 powi (e - 52)"
    unfolding q round_half_even_of_int ..
  also have "\<dots> = ?x" unfolding pk by simp
  finally show ?thesis .
qed

lemma round_to_double_numeral [simp]:
  "(numeral n :: int) < 2 ^ 53 \<Longrightarrow> round_to_double (numeral n) = numeral n"
  using round_to_double_exact [of "numeral n" 0] by simp

lemma round_to_double_0 [simp]: "round_to_double 0 = 0"
  by (simp add: round_to_double_def)

lemma double_0_01:
  "round_to_double 0.01 = 5764607523034235 / 2 ^ 59"
  "round_to_double (1 / 100) = 5764607523034235 / 2 ^ 59"
  using round_to_double_eval [of "- 7" "0.01"] by (simp_all add: round_half_even_def Let_def)

lemma double_0_01_less: "round_to_double 0.01 < 100" "round_to_double (1 / 100) < 100"
  unfolding double_0_01 by simp_all

section \<open>Properties of the reconciliation engine\<close>

subsection \<open>The loops\<close>

lemma scan_gl_None_iff: "scan_gl t gls M = None \<longleftrightarrow> (\<forall>g \<in> set gls. \<not> eligible t M g)"
  using double_0_01_less(2)
  by (induction gls) (auto simp: eligible_def computed_difference_def Let_def)

lemma scan_gl_skip:
  "\<forall>g' \<in> set gpre. \<not> eligible t M g' \<Longrightarrow> scan_gl t (gpre @ gs) M = scan_gl t gs M"
  using double_0_01_less(2)
  by (induction gpre) (auto simp: eligible_def computed_difference_def Let_def)

lemma scan_gl_Some:
  "scan_gl t gls M = Some (r, i) \<Longrightarrow>
     \<exists>g \<in> set gls. gl_oid g = i \<and> i \<notin> M \<and> res_gl_id r = Some (gl_id g)
        \<and> transaction_id r = Some (txn_id t) \<and> claiming r"
  by (induction gls) (auto simp: Let_def claiming_def split: if_splits)

lemma match_loop_acc:
  "match_loop ts gls (rs, M) =
     (rs @ fst (match_loop ts gls ([], M)), snd (match_loop ts gls ([], M)))"
proof (induction ts arbitrary: rs M)
  case Nil
  show ?case by simp
next
  case (Cons t ts)
  show ?case
  proof (cases "scan_gl t gls M")
    case None
    then show ?thesis
      using Cons.IH [of "rs @ [missing_gl_result t]" M] Cons.IH [of "[missing_gl_result t]" M]
      by simp
  next
    case (Some p)
    obtain r i where p: "p = (r, i)" by (cases p)
    show ?thesis
      using Some p Cons.IH [of "rs @ [r]" "insert i M"] Cons.IH [of "[r]" "insert i M"]
      by simp
  qed
qed

lemma match_loop_append:
  "match_loop (ts @ us) gls st = match_loop us gls (match_loop ts gls st)"
proof (induction ts arbitrary: st)
  case Nil
  show ?case by simp
next
  case (Cons t ts)
  obtain rs M where st: "st = (rs, M)" by (cases st)
  show ?case using Cons.IH by (simp add: st split: option.splits)
qed

lemma unmatched_loop_eq:
  "unmatched_loop gls M rs =
     rs @ map missing_transaction_result (filter (\<lambda>g. gl_oid g \<notin> M) gls)"
  by (induction gls arbitrary: rs) auto

lemma reconcile_eq:
  "reconcile ts gls =
     fst (match_loop ts gls ([], {})) @
     map missing_transaction_result (filter (\<lambda>g. gl_oid g \<notin> claimed_gl_ids ts gls) gls)"
  by (simp add: reconcile_def claimed_gl_ids_def unmatched_loop_eq split: prod.splits)

lemma match_loop_txn_ids:
  "map transaction_id (fst (match_loop ts gls (rs, M))) =
     map transaction_id rs @ map (\<lambda>t. Some (txn_id t)) ts"
proof (induction ts arbitrary: rs M)
  case Nil
  show ?case by simp
next
  case (Cons t ts)
  show ?case
  proof (cases "scan_gl t gls M")
    case None
    then show ?thesis using Cons.IH [of "rs @ [missing_gl_result t]" M]
      by (simp add: missing_gl_result_def)
  next
    case (Some p)
    obtain r i where p: "p = (r, i)" by (cases p)
    from Some p scan_gl_Some have "transaction_id r = Some (txn_id t)" by blast
    then show ?thesis using Some p Cons.IH [of "rs @ [r]" "insert i M"] by simp
  qed
qed

lemma match_loop_length: "length (fst (match_loop ts gls (rs, M))) = length rs + length ts"
  using arg_cong [OF match_loop_txn_ids, of length ts gls rs M] by simp

lemma match_loop_status:
  "r \<in> set (fst (match_loop ts gls (rs, M))) \<Longrightarrow>
     r \<in> set rs \<or> status r = matched \<or> status r = amount_mismatch \<or> status r = missing_gl"
proof (induction ts arbitrary: rs M)
  case Nil
  then show ?case by simp
next
  case (Cons t ts)
  show ?case
  proof (cases "scan_gl t gls M")
    case None
    then show ?thesis using Cons.IH [of "rs @ [missing_gl_result t]" M] Cons.prems
      by (auto simp: missing_gl_result_def)
  next
    case (Some p)
    obtain r' i where p: "p = (r', i)" by (cases p)
    from Some p scan_gl_Some have "claiming r'" by blast
    then show ?thesis using Some p Cons.IH [of "rs @ [r']" "insert i M"] Cons.prems
      by (auto simp: claiming_def)
  qed
qed

lemma not_claiming_missing [simp]:
  "\<not> claiming (missing_gl_result t)" "\<not> claiming (missing_transaction_result g)"
  by (simp_all add: claiming_def missing_gl_result_def missing_transaction_result_def)

lemma match_loop_mono: "M \<subseteq> snd (match_loop ts gls (rs, M))"
proof (induction ts arbitrary: rs M)
  case Nil
  show ?case by simp
next
  case (Cons t ts)
  show ?case
  proof (cases "scan_gl t gls M")
    case None
    then show ?thesis using Cons.IH [of M "rs @ [missing_gl_result t]"] by simp
  next
    case (Some p)
    obtain r i where p: "p = (r, i)" by (cases p)
    show ?thesis using Some p Cons.IH [of "insert i M" "rs @ [r]"] by auto
  qed
qed

lemma match_loop_finite: "finite M \<Longrightarrow> finite (snd (match_loop ts gls (rs, M)))"
proof (induction ts arbitrary: rs M)
  case Nil
  then show ?case by simp
next
  case (Cons t ts)
  show ?case
  proof (cases "scan_gl t gls M")
    case None
    then show ?thesis using Cons.IH [of M "rs @ [missing_gl_result t]"] Cons.prems by simp
  next
    case (Some p)
    obtain r i where p: "p = (r, i)" by (cases p)
    show ?thesis using Some p Cons.IH [of "insert i M" "rs @ [r]"] Cons.prems by simp
  qed
qed

lemma match_loop_card:
  "finite M \<Longrightarrow>
     length (filter claiming (fst (match_loop ts gls (rs, M)))) + card M
       = length (filter claiming rs) + card (snd (match_loop ts gls (rs, M)))"
proof (induction ts arbitrary: rs M)
  case Nil
  show ?case by simp
next
  case (Cons t ts)
  show ?case
  proof (cases "scan_gl t gls M")
    case None
    then show ?thesis using Cons.IH [of M "rs @ [missing_gl_result t]"] Cons.prems
      by simp
  next
    case (Some p)
    obtain r i where p: "p = (r, i)" by (cases p)
    from Some p scan_gl_Some have "claiming r" and "i \<notin> M" by blast+
    then show ?thesis using Some p Cons.IH [of "insert i M" "rs @ [r]"] Cons.prems by simp
  qed
qed

text \<open>
  Every reference to a GL entry in the results is backed by its \<^verbatim>\<open>_id\<close> in the set
  of matched ids.
\<close>

lemma match_loop_refs:
  assumes "r \<in> set (fst (match_loop ts gls (rs, M)))"
  shows "r \<in> set rs \<or> res_gl_id r = None
         \<or> (\<exists>g \<in> set gls. res_gl_id r = Some (gl_id g) \<and> gl_oid g \<notin> M
               \<and> gl_oid g \<in> snd (match_loop ts gls (rs, M)))"
  using assms
proof (induction ts arbitrary: rs M)
  case Nil
  then show ?case by simp
next
  case (Cons t ts)
  show ?case
  proof (cases "scan_gl t gls M")
    case None
    then show ?thesis using Cons.IH [of "rs @ [missing_gl_result t]" M] Cons.prems
      by (auto simp: missing_gl_result_def)
  next
    case (Some p)
    obtain r' i where p: "p = (r', i)" by (cases p)
    from Some p scan_gl_Some obtain g where g: "g \<in> set gls" "gl_oid g = i" "i \<notin> M"
      "res_gl_id r' = Some (gl_id g)" by blast
    have step: "match_loop (t # ts) gls (rs, M) = match_loop ts gls (rs @ [r'], insert i M)"
      using Some p by simp
    have mono: "insert i M \<subseteq> snd (match_loop ts gls (rs @ [r'], insert i M))"
      by (rule match_loop_mono)
    from Cons.prems have "r \<in> set (fst (match_loop ts gls (rs @ [r'], insert i M)))"
      by (simp only: step)
    from Cons.IH [OF this]
    consider "r \<in> set rs" | "r = r'" | "res_gl_id r = None"
      | "\<exists>g \<in> set gls. res_gl_id r = Some (gl_id g) \<and> gl_oid g \<notin> insert i M
               \<and> gl_oid g \<in> snd (match_loop ts gls (rs @ [r'], insert i M))"
      by auto
    then show ?thesis
    proof cases
      case 1 then show ?thesis by simp
    next
      case 2
      then show ?thesis using g mono unfolding step by auto
    next
      case 3 then show ?thesis by simp
    next
      case 4 then show ?thesis unfolding step by auto
    qed
  qed
qed

lemma match_loop_distinct_refs:
  assumes "inj_on gl_id (set gls)"
    and "distinct (map res_gl_id (filter claiming rs))"
    and "\<forall>g \<in> set gls. Some (gl_id g) \<in> res_gl_id ` set rs \<longrightarrow> gl_oid g \<in> M"
  shows "distinct (map res_gl_id (filter claiming (fst (match_loop ts gls (rs, M)))))"
  using assms(2,3)
proof (induction ts arbitrary: rs M)
  case Nil
  then show ?case by simp
next
  case (Cons t ts)
  show ?case
  proof (cases "scan_gl t gls M")
    case None
    have "distinct (map res_gl_id (filter claiming (fst (match_loop ts gls (rs @ [missing_gl_result t], M)))))"
    proof (rule Cons.IH)
      show "distinct (map res_gl_id (filter claiming (rs @ [missing_gl_result t])))"
        using Cons.prems(1) by simp
      show "\<forall>g\<in>set gls. Some (gl_id g) \<in> res_gl_id ` set (rs @ [missing_gl_result t]) \<longrightarrow> gl_oid g \<in> M"
        using Cons.prems(2) by (auto simp: missing_gl_result_def)
    qed
    then show ?thesis using None by simp
  next
    case (Some p)
    obtain r' i where p: "p = (r', i)" by (cases p)
    from Some p scan_gl_Some obtain g where g: "g \<in> set gls" "gl_oid g = i" "i \<notin> M"
      "res_gl_id r' = Some (gl_id g)" by blast
    have "distinct (map res_gl_id (filter claiming (fst (match_loop ts gls (rs @ [r'], insert i M)))))"
    proof (rule Cons.IH)
      have "res_gl_id r' \<notin> res_gl_id ` set rs"
        using Cons.prems(2) g by auto
      then show "distinct (map res_gl_id (filter claiming (rs @ [r'])))"
        using Cons.prems(1) by auto
      show "\<forall>g'\<in>set gls. Some (gl_id g') \<in> res_gl_id ` set (rs @ [r']) \<longrightarrow> gl_oid g' \<in> insert i M"
      proof (intro ballI impI)
        fix g' assume g': "g' \<in> set gls" "Some (gl_id g') \<in> res_gl_id ` set (rs @ [r'])"
        then consider "Some (gl_id g') \<in> res_gl_id ` set rs" | "gl_id g' = gl_id g"
          using g(4) by auto
        then show "gl_oid g' \<in> insert i M"
        proof cases
          case 1 then show ?thesis using Cons.prems(2) g'(1) by simp
        next
          case 2
          then have "g' = g" using assms(1) g(1) g'(1) by (simp add: inj_on_def)
          then show ?thesis using g(2) by simp
        qed
      qed
    qed
    then show ?thesis using Some p by simp
  qed
qed

subsection \<open>C1: matching correctness\<close>

text \<open>
  Claim C1 as stated, for every unclaimed GL entry of the same account and date whose net
  amount is within 0.01 of the transaction's, does not hold, for two reasons.  The inner
  loop stops at the first unclaimed entry of that account and date within 100: in the
  first run below \<^verbatim>\<open>GL002\<close> agrees with the transaction to the cent and is unclaimed,
  but \<^verbatim>\<open>GL001\<close>, 50 away, stands before it, so that the transaction is reported as an
  \<^verbatim>\<open>amount_mismatch\<close> against \<^verbatim>\<open>GL001\<close> and \<^verbatim>\<open>GL002\<close> as a
  \<^verbatim>\<open>missing_transaction\<close>.  And the loop compares the difference that it computes in
  double arithmetic: in the second run the net amount of the only entry is 0.008 below the
  transaction's \<open>10 ^ 14\<close>, the computed difference is \<open>- 1 / 64\<close>, and the transaction
  is reported as an \<^verbatim>\<open>amount_mismatch\<close>.
\<close>

theorem later_exact_entry_counterexample:
  "gl_account_id (mk_gl 2 ''GL002'' 100) = txn_account_id (mk_txn ''TXN001'' 100)
   \<and> gl_date (mk_gl 2 ''GL002'' 100) = txn_date (mk_txn ''TXN001'' 100)
   \<and> \<bar>debit_amount (mk_gl 2 ''GL002'' 100) - credit_amount (mk_gl 2 ''GL002'' 100)
        - amount (mk_txn ''TXN001'' 100)\<bar> < 0.01
   \<and> \<bar>computed_difference (mk_gl 2 ''GL002'' 100) (mk_txn ''TXN001'' 100)\<bar>
        < round_to_double 0.01
   \<and> gl_oid (mk_gl 2 ''GL002'' 100) \<notin> claimed_gl_ids [] [mk_gl 1 ''GL001'' 150, mk_gl 2 ''GL002'' 100]
   \<and> reconcile [mk_txn ''TXN001'' 100] [mk_gl 1 ''GL001'' 150, mk_gl 2 ''GL002'' 100] =
       [\<lparr>status = amount_mismatch, transaction_id = Some ''TXN001'', res_gl_id = Some ''GL001'',
         res_account_id = ''ACC123'', res_date = ''2024-01-15'', amount_difference = Some 50\<rparr>,
        \<lparr>status = missing_transaction, transaction_id = None, res_gl_id = Some ''GL002'',
         res_account_id = ''ACC123'', res_date = ''2024-01-15'', amount_difference = None\<rparr>]
   \<and> \<bar>debit_amount (mk_gl 3 ''GL003'' (10 ^ 14) \<lparr>credit_amount := round_to_double 0.008\<rparr>)
        - credit_amount (mk_gl 3 ''GL003'' (10 ^ 14) \<lparr>credit_amount := round_to_double 0.008\<rparr>)
        - amount (mk_txn ''TXN003'' (10 ^ 14))\<bar> < 0.01
   \<and> reconcile [mk_txn ''TXN003'' (10 ^ 14)]
         [mk_gl 3 ''GL003'' (10 ^ 14) \<lparr>credit_amount := round_to_double 0.008\<rparr>] =
       [\<lparr>status = amount_mismatch, transaction_id = Some ''TXN003'', res_gl_id = Some ''GL003'',
         res_account_id = ''ACC123'', res_date = ''2024-01-15'',
         amount_difference = Some (- 1 / 64)\<rparr>]"
proof -
  have c: "round_to_double 0.008 = 1152921504606847 / 2 ^ 57"
    using round_to_double_eval [of "- 7" "0.008"] by (simp add: round_half_even_def Let_def)
  have g: "float_sub 100000000000000 (1152921504606847 / 144115188075855872) = 6399999999999999 / 2 ^ 6"
    unfolding float_sub_def
    using round_to_double_eval [of 46 "10 ^ 14 - 1152921504606847 / 2 ^ 57"]
    by (simp add: round_half_even_def Let_def)
  have d: "float_sub (6399999999999999 / 64) 100000000000000 = - 1 / 64"
    unfolding float_sub_def using round_to_double_exact [of "- 1" "- 6"] by simp
  have e: "float_sub 150 0 = 150" "float_sub 150 100 = 50" "float_sub 100 0 = 100"
    "float_sub 100 100 = 0"
    by (simp_all add: float_sub_def)
  show ?thesis
    unfolding mk_txn_def mk_gl_def reconcile_def claimed_gl_ids_def computed_difference_def c
    by (simp add: Let_def missing_transaction_result_def double_0_01 g d e)
qed

text \<open>
  Claim C1, amended.  Let the GL entry \<open>gl\<close> be unclaimed when the run reaches the
  transaction \<open>txn\<close>, share its account and date, have a computed difference to it of less
  than the double 0.01 in absolute value, and be the first entry in scan order that is
  unclaimed, of that account and date and has a computed difference of less than 100; let
  the \<^verbatim>\<open>gl_id\<close>s be pairwise different.  Then the result at the transaction's position is
  \<^verbatim>\<open>matched\<close>, names \<open>txn\<close> and \<open>gl\<close> and has \<^verbatim>\<open>amount_difference\<close> exactly 0; no
  other result of the run, before or after, refers to \<open>gl\<close>; and the \<^verbatim>\<open>_id\<close> of \<open>gl\<close>
  is in the set of matched ids when the run ends.
\<close>

theorem first_eligible_match:
  assumes split_t: "transactions = pre @ txn # post"
    and split_g: "gl_entries = gpre @ gl # gpost"
    and unclaimed: "gl_oid gl \<notin> claimed_gl_ids pre gl_entries"
    and same: "gl_account_id gl = txn_account_id txn" "gl_date gl = txn_date txn"
    and close: "\<bar>computed_difference gl txn\<bar> < round_to_double 0.01"
    and first: "\<forall>g \<in> set gpre. \<not> eligible txn (claimed_gl_ids pre gl_entries) g"
    and ids: "distinct (map gl_id gl_entries)"
  shows "reconcile transactions gl_entries ! length pre =
           \<lparr>status = matched, transaction_id = Some (txn_id txn), res_gl_id = Some (gl_id gl),
            res_account_id = txn_account_id txn, res_date = txn_date txn,
            amount_difference = Some 0\<rparr>
       \<and> list_all (\<lambda>r. res_gl_id r \<noteq> Some (gl_id gl))
            (take (length pre) (reconcile transactions gl_entries)
             @ drop (Suc (length pre)) (reconcile transactions gl_entries))
       \<and> gl_oid gl \<in> claimed_gl_ids transactions gl_entries"
proof -
  let ?R = "\<lparr>status = matched, transaction_id = Some (txn_id txn), res_gl_id = Some (gl_id gl),
            res_account_id = txn_account_id txn, res_date = txn_date txn,
            amount_difference = Some 0\<rparr>"
  obtain rs0 M0 where st0: "match_loop pre gl_entries ([], {}) = (rs0, M0)"
    by (cases "match_loop pre gl_entries ([], {})")
  have M0: "claimed_gl_ids pre gl_entries = M0" by (simp add: claimed_gl_ids_def st0)
  let ?M1 = "insert (gl_oid gl) M0"
  obtain rs2 M2 where st2: "match_loop post gl_entries ([], ?M1) = (rs2, M2)"
    by (cases "match_loop post gl_entries ([], ?M1)")
  let ?sweep = "map missing_transaction_result (filter (\<lambda>g. gl_oid g \<notin> M2) gl_entries)"
  have inj: "inj_on gl_id (set gl_entries)" using ids by (simp add: distinct_map)
  have gin: "gl \<in> set gl_entries" by (simp add: split_g)
  have same_id: "g = gl" if "g \<in> set gl_entries" "gl_id g = gl_id gl" for g
    using inj gin that by (simp add: inj_on_def)
  have skip: "scan_gl txn (gpre @ gl # gpost) M0 = scan_gl txn (gl # gpost) M0"
    using first unfolding M0 by (rule scan_gl_skip)
  have scan: "scan_gl txn gl_entries M0 = Some (?R, gl_oid gl)"
    unfolding split_g skip using unclaimed same close unfolding M0
    by (simp add: Let_def computed_difference_def)
  have run: "match_loop transactions gl_entries ([], {}) = (rs0 @ [?R] @ rs2, M2)"
    unfolding split_t match_loop_append st0
    using scan match_loop_acc [of post gl_entries "rs0 @ [?R]" ?M1] by (simp add: st2)
  have M2: "claimed_gl_ids transactions gl_entries = M2"
    by (simp add: claimed_gl_ids_def run)
  have rec: "reconcile transactions gl_entries = rs0 @ [?R] @ rs2 @ ?sweep"
    by (simp add: reconcile_eq M2 run)
  have len0: "length rs0 = length pre"
    using match_loop_length [of pre gl_entries "[]" "{}"] by (simp add: st0)
  have mono: "?M1 \<subseteq> M2"
    using match_loop_mono [of ?M1 post gl_entries "[]"] by (simp add: st2)
  have c1: "reconcile transactions gl_entries ! length pre = ?R"
    unfolding rec using len0 by (simp add: nth_append)
  have c3: "gl_oid gl \<in> claimed_gl_ids transactions gl_entries"
    unfolding M2 using mono by blast
  have r0: "res_gl_id r \<noteq> Some (gl_id gl)" if "r \<in> set rs0" for r
  proof
    assume eq: "res_gl_id r = Some (gl_id gl)"
    from that have "r \<in> set (fst (match_loop pre gl_entries ([], {})))" by (simp add: st0)
    from match_loop_refs [OF this] eq obtain g where "g \<in> set gl_entries"
      "gl_id g = gl_id gl" "gl_oid g \<in> M0" by (auto simp: st0)
    then show False using same_id unclaimed M0 by auto
  qed
  have r2: "res_gl_id r \<noteq> Some (gl_id gl)" if "r \<in> set rs2" for r
  proof
    assume eq: "res_gl_id r = Some (gl_id gl)"
    from that have "r \<in> set (fst (match_loop post gl_entries ([], ?M1)))" by (simp add: st2)
    from match_loop_refs [OF this] eq obtain g where "g \<in> set gl_entries"
      "gl_id g = gl_id gl" "gl_oid g \<notin> ?M1" by auto
    then show False using same_id by auto
  qed
  have r3: "res_gl_id r \<noteq> Some (gl_id gl)" if "r \<in> set ?sweep" for r
  proof
    assume eq: "res_gl_id r = Some (gl_id gl)"
    from that obtain g where "g \<in> set gl_entries" "gl_oid g \<notin> M2"
      "r = missing_transaction_result g" by auto
    then show False using same_id eq mono by (auto simp: missing_transaction_result_def)
  qed
  have t: "take (length pre) (reconcile transactions gl_entries) = rs0"
    unfolding rec using len0 by simp
  have d: "drop (Suc (length pre)) (reconcile transactions gl_entries) = rs2 @ ?sweep"
    unfolding rec using len0 by simp
  have c2: "list_all (\<lambda>r. res_gl_id r \<noteq> Some (gl_id gl))
            (take (length pre) (reconcile transactions gl_entries)
             @ drop (Suc (length pre)) (reconcile transactions gl_entries))"
    unfolding t d list_all_iff using r0 r2 r3 by auto
  from c1 c2 c3 show ?thesis by blast
qed

theorem first_eligible_match_witness:
  "reconcile [mk_txn ''TXN001'' 100, mk_txn ''TXN002'' 100]
       [mk_gl 1 ''GL001'' 100, mk_gl 2 ''GL002'' 100.0078125] ! 1 =
     \<lparr>status = matched, transaction_id = Some ''TXN002'', res_gl_id = Some ''GL002'',
      res_account_id = ''ACC123'', res_date = ''2024-01-15'', amount_difference = Some 0\<rparr>
   \<and> list_all (\<lambda>r. res_gl_id r \<noteq> Some ''GL002'')
        (take 1 (reconcile [mk_txn ''TXN001'' 100, mk_txn ''TXN002'' 100]
                   [mk_gl 1 ''GL001'' 100, mk_gl 2 ''GL002'' 100.0078125])
         @ drop 2 (reconcile [mk_txn ''TXN001'' 100, mk_txn ''TXN002'' 100]
                   [mk_gl 1 ''GL001'' 100, mk_gl 2 ''GL002'' 100.0078125]))
   \<and> 2 \<in> claimed_gl_ids [mk_txn ''TXN001'' 100, mk_txn ''TXN002'' 100]
         [mk_gl 1 ''GL001'' 100, mk_gl 2 ''GL002'' 100.0078125]"
proof -
  let ?t1 = "mk_txn ''TXN001'' 100" and ?t2 = "mk_txn ''TXN002'' 100"
  let ?g1 = "mk_gl 1 ''GL001'' 100" and ?g2 = "mk_gl 2 ''GL002'' 100.0078125"
  have e: "float_sub 100 0 = 100" "float_sub 100 100 = 0"
    by (simp_all add: float_sub_def)
  have f: "float_sub (12801 / 128) 0 = 12801 / 128"
    unfolding float_sub_def using round_to_double_exact [of 12801 "- 7"] by simp
  have g: "float_sub (12801 / 128) 100 = 1 / 128"
    unfolding float_sub_def using round_to_double_exact [of 1 "- 7"] by simp
  have h1: "[?t1, ?t2] = [?t1] @ ?t2 # []" by simp
  have h2: "[?g1, ?g2] = [?g1] @ ?g2 # []" by simp
  have h3: "gl_oid ?g2 \<notin> claimed_gl_ids [?t1] [?g1, ?g2]"
    unfolding mk_txn_def mk_gl_def claimed_gl_ids_def
    by (simp add: Let_def e double_0_01)
  have h4: "gl_account_id ?g2 = txn_account_id ?t2" by (simp add: mk_txn_def mk_gl_def)
  have h5: "gl_date ?g2 = txn_date ?t2" by (simp add: mk_txn_def mk_gl_def)
  have h6: "\<bar>computed_difference ?g2 ?t2\<bar> < round_to_double 0.01"
    unfolding mk_txn_def mk_gl_def computed_difference_def double_0_01
    by (simp add: f g)
  have h7: "\<forall>g \<in> set [?g1]. \<not> eligible ?t2 (claimed_gl_ids [?t1] [?g1, ?g2]) g"
    unfolding mk_txn_def mk_gl_def claimed_gl_ids_def eligible_def
    by (simp add: Let_def e double_0_01)
  have h8: "distinct (map gl_id [?g1, ?g2])" by (simp add: mk_gl_def)
  have sel: "txn_id ?t2 = ''TXN002''" "gl_id ?g2 = ''GL002''" "txn_account_id ?t2 = ''ACC123''"
    "txn_date ?t2 = ''2024-01-15''" "gl_oid ?g2 = 2"
    by (simp_all add: mk_txn_def mk_gl_def)
  from first_eligible_match [OF h1 h2 h3 h4 h5 h6 h7 h8] show ?thesis
    unfolding sel by (simp add: numeral_2_eq_2)
qed

subsection \<open>C2: the boundary between mismatch and missing\<close>

text \<open>
  Claim C2 as stated, on the amounts as they are written, does not hold at 100.00.  The
  amounts 128.01 and 28.01 are 100.00 apart; the doubles nearest to them are subtracted to
  the double \<open>7036874417766399 / 2 ^ 46\<close>, which Python prints as 99.99999999999999
  and which is below 100: the transaction is reported as an \<^verbatim>\<open>amount_mismatch\<close>, not as
  \<^verbatim>\<open>missing_gl\<close>.
\<close>

theorem decimal_boundary_counterexample:
  "(128.01 :: real) - 28.01 = 100
   \<and> reconcile [mk_txn ''TXN001'' (round_to_double 28.01)]
         [mk_gl 1 ''GL001'' (round_to_double 128.01)] =
       [\<lparr>status = amount_mismatch, transaction_id = Some ''TXN001'', res_gl_id = Some ''GL001'',
         res_account_id = ''ACC123'', res_date = ''2024-01-15'',
         amount_difference = Some (7036874417766399 / 2 ^ 46)\<rparr>]"
proof -
  have a: "round_to_double 128.01 = 562993933886423 / 2 ^ 42"
    using round_to_double_eval [of 7 "128.01"] by (simp add: round_half_even_def Let_def)
  have b: "round_to_double 28.01 = 7884114097665475 / 2 ^ 48"
    using round_to_double_eval [of 4 "28.01"] by (simp add: round_half_even_def Let_def)
  have n: "float_sub (562993933886423 / 4398046511104) 0 = 562993933886423 / 2 ^ 42"
    unfolding float_sub_def using round_to_double_exact [of 562993933886423 "- 42"] by simp
  have d: "float_sub (562993933886423 / 4398046511104) (7884114097665475 / 281474976710656)
      = 7036874417766399 / 2 ^ 46"
    unfolding float_sub_def
    using round_to_double_eval [of 6 "562993933886423 / 2 ^ 42 - 7884114097665475 / 2 ^ 48"]
    by (simp add: round_half_even_def Let_def)
  have r: "reconcile [mk_txn ''TXN001'' (round_to_double 28.01)]
         [mk_gl 1 ''GL001'' (round_to_double 128.01)] =
       [\<lparr>status = amount_mismatch, transaction_id = Some ''TXN001'', res_gl_id = Some ''GL001'',
         res_account_id = ''ACC123'', res_date = ''2024-01-15'',
         amount_difference = Some (7036874417766399 / 2 ^ 46)\<rparr>]"
    unfolding mk_txn_def mk_gl_def reconcile_def a b
    by (simp add: Let_def n d double_0_01)
  have "(128.01 :: real) - 28.01 = 100" by simp
  with r show ?thesis by blast
qed

text \<open>
  Claim C2, amended.  The boundary is a strict less-than at 100 on the difference as the
  loop computes it in double arithmetic.  For one transaction and one GL entry of the same
  account and date: a computed difference of at least the double 0.01 and less than 100
  in absolute value gives the single result \<^verbatim>\<open>amount_mismatch\<close> with the computed, signed
  difference; a computed difference of 100 or more in absolute value gives
  \<^verbatim>\<open>missing_gl\<close> for the transaction, without GL id and difference, followed by
  \<^verbatim>\<open>missing_transaction\<close> for the GL entry.
\<close>

theorem mismatch_boundary:
  assumes "gl_account_id gl = txn_account_id txn" and "gl_date gl = txn_date txn"
  shows "(round_to_double 0.01 \<le> \<bar>computed_difference gl txn\<bar>
            \<and> \<bar>computed_difference gl txn\<bar> < 100 \<longrightarrow>
            reconcile [txn] [gl] =
              [\<lparr>status = amount_mismatch, transaction_id = Some (txn_id txn),
                res_gl_id = Some (gl_id gl), res_account_id = txn_account_id txn,
                res_date = txn_date txn,
                amount_difference = Some (computed_difference gl txn)\<rparr>])
       \<and> (100 \<le> \<bar>computed_difference gl txn\<bar> \<longrightarrow>
            reconcile [txn] [gl] =
              [\<lparr>status = missing_gl, transaction_id = Some (txn_id txn), res_gl_id = None,
                res_account_id = txn_account_id txn, res_date = txn_date txn,
                amount_difference = None\<rparr>,
               \<lparr>status = missing_transaction, transaction_id = None,
                res_gl_id = Some (gl_id gl), res_account_id = gl_account_id gl,
                res_date = gl_date gl, amount_difference = None\<rparr>])"
  using assms double_0_01_less(2)
  by (simp add: reconcile_def Let_def missing_gl_result_def missing_transaction_result_def
        computed_difference_def)

theorem mismatch_boundary_witness:
  "reconcile [mk_txn ''TXN001'' 1500] [mk_gl 1 ''GL001'' (round_to_double 1599.99)] =
     [\<lparr>status = amount_mismatch, transaction_id = Some ''TXN001'', res_gl_id = Some ''GL001'',
       res_account_id = ''ACC123'', res_date = ''2024-01-15'',
       amount_difference = Some (439760670645289 / 2 ^ 42)\<rparr>]
   \<and> reconcile [mk_txn ''TXN001'' 1500] [mk_gl 2 ''GL002'' 1600] =
     [\<lparr>status = missing_gl, transaction_id = Some ''TXN001'', res_gl_id = None,
       res_account_id = ''ACC123'', res_date = ''2024-01-15'', amount_difference = None\<rparr>,
      \<lparr>status = missing_transaction, transaction_id = None, res_gl_id = Some ''GL002'',
       res_account_id = ''ACC123'', res_date = ''2024-01-15'', amount_difference = None\<rparr>]"
proof -
  let ?t = "mk_txn ''TXN001'' 1500"
  let ?g1 = "mk_gl 1 ''GL001'' (round_to_double 1599.99)" and ?g2 = "mk_gl 2 ''GL002'' 1600"
  have a: "round_to_double 1599.99 = 7036830437301289 / 2 ^ 42"
    using round_to_double_eval [of 10 "1599.99"] by (simp add: round_half_even_def Let_def)
  have n: "float_sub (7036830437301289 / 4398046511104) 0 = 7036830437301289 / 2 ^ 42"
    unfolding float_sub_def using round_to_double_exact [of 7036830437301289 "- 42"] by simp
  have d: "float_sub (7036830437301289 / 4398046511104) 1500 = 439760670645289 / 2 ^ 42"
    unfolding float_sub_def using round_to_double_exact [of 439760670645289 "- 42"] by simp
  have c1: "computed_difference ?g1 ?t = 439760670645289 / 2 ^ 42"
    unfolding mk_txn_def mk_gl_def computed_difference_def a by (simp add: n d)
  have c2: "computed_difference ?g2 ?t = 100"
    unfolding mk_txn_def mk_gl_def computed_difference_def by (simp add: float_sub_def)
  have s: "gl_account_id ?g1 = txn_account_id ?t" "gl_date ?g1 = txn_date ?t"
    "gl_account_id ?g2 = txn_account_id ?t" "gl_date ?g2 = txn_date ?t"
    by (simp_all add: mk_txn_def mk_gl_def)
  have sel: "txn_id ?t = ''TXN001''" "txn_account_id ?t = ''ACC123''"
    "txn_date ?t = ''2024-01-15''" "gl_id ?g1 = ''GL001''" "gl_id ?g2 = ''GL002''"
    "gl_account_id ?g2 = ''ACC123''" "gl_date ?g2 = ''2024-01-15''"
    by (simp_all add: mk_txn_def mk_gl_def)
  have r1: "round_to_double 0.01 \<le> \<bar>439760670645289 / 2 ^ 42\<bar>
      \<and> \<bar>439760670645289 / 2 ^ 42 :: real\<bar> < 100"
    unfolding double_0_01 by simp
  from mismatch_boundary [OF s(1,2)] mismatch_boundary [OF s(3,4)] r1
  show ?thesis unfolding c1 c2 sel by simp
qed

subsection \<open>C3: exhaustive coverage\<close>

text \<open>
  Claim C3.  The first results of a run, as many as there are transactions, carry the
  transactions' ids in input order and one of the statuses \<^verbatim>\<open>matched\<close>,
  \<^verbatim>\<open>amount_mismatch\<close>, \<^verbatim>\<open>missing_gl\<close>; the results after them are the
  \<^verbatim>\<open>missing_transaction\<close> results of the GL entries never claimed, in input order; no
  other result carries a transaction id and no other result has the status
  \<^verbatim>\<open>missing_transaction\<close>; the number of results is the number of transactions plus
  the number of unclaimed GL entries.
\<close>

theorem exhaustive_coverage:
  "map transaction_id (take (length transactions) (reconcile transactions gl_entries))
     = map (\<lambda>txn. Some (txn_id txn)) transactions
   \<and> list_all (\<lambda>r. status r = matched \<or> status r = amount_mismatch \<or> status r = missing_gl)
        (take (length transactions) (reconcile transactions gl_entries))
   \<and> drop (length transactions) (reconcile transactions gl_entries)
     = map missing_transaction_result
         (filter (\<lambda>gl. gl_oid gl \<notin> claimed_gl_ids transactions gl_entries) gl_entries)
   \<and> filter (\<lambda>r. transaction_id r \<noteq> None) (reconcile transactions gl_entries)
     = take (length transactions) (reconcile transactions gl_entries)
   \<and> filter (\<lambda>r. status r = missing_transaction) (reconcile transactions gl_entries)
     = drop (length transactions) (reconcile transactions gl_entries)
   \<and> length (reconcile transactions gl_entries)
     = length transactions
       + length (filter (\<lambda>gl. gl_oid gl \<notin> claimed_gl_ids transactions gl_entries) gl_entries)"
proof -
  let ?A = "fst (match_loop transactions gl_entries ([], {}))"
  let ?B = "map missing_transaction_result
         (filter (\<lambda>gl. gl_oid gl \<notin> claimed_gl_ids transactions gl_entries) gl_entries)"
  have eq: "reconcile transactions gl_entries = ?A @ ?B" by (rule reconcile_eq)
  have len: "length ?A = length transactions" by (simp add: match_loop_length)
  have ids: "map transaction_id ?A = map (\<lambda>txn. Some (txn_id txn)) transactions"
    by (simp add: match_loop_txn_ids)
  have st: "\<forall>r \<in> set ?A. status r = matched \<or> status r = amount_mismatch \<or> status r = missing_gl"
    using match_loop_status [of _ transactions gl_entries "[]" "{}"] by auto
  have tidA: "\<forall>r \<in> set ?A. transaction_id r \<noteq> None"
  proof
    fix r assume "r \<in> set ?A"
    then have "transaction_id r \<in> set (map transaction_id ?A)" by simp
    then show "transaction_id r \<noteq> None" unfolding ids by auto
  qed
  have fA: "filter (\<lambda>r. transaction_id r \<noteq> None) ?A = ?A"
    using tidA by (simp add: filter_id_conv)
  have fB: "filter (\<lambda>r. transaction_id r \<noteq> None) ?B = []"
    by (simp add: filter_empty_conv missing_transaction_result_def)
  have gA: "filter (\<lambda>r. status r = missing_transaction) ?A = []"
    using st by (auto simp: filter_empty_conv)
  have gB: "filter (\<lambda>r. status r = missing_transaction) ?B = ?B"
    by (simp add: filter_id_conv missing_transaction_result_def)
  have t: "take (length transactions) (reconcile transactions gl_entries) = ?A"
    using len by (simp add: eq)
  have d: "drop (length transactions) (reconcile transactions gl_entries) = ?B"
    using len by (simp add: eq)
  have c1: "map transaction_id (take (length transactions) (reconcile transactions gl_entries))
     = map (\<lambda>txn. Some (txn_id txn)) transactions" unfolding t by (rule ids)
  have c2: "list_all (\<lambda>r. status r = matched \<or> status r = amount_mismatch \<or> status r = missing_gl)
        (take (length transactions) (reconcile transactions gl_entries))"
    unfolding t using st by (simp add: list_all_iff)
  have c4: "filter (\<lambda>r. transaction_id r \<noteq> None) (reconcile transactions gl_entries)
     = take (length transactions) (reconcile transactions gl_entries)"
    unfolding t unfolding eq filter_append fA fB by simp
  have c5: "filter (\<lambda>r. status r = missing_transaction) (reconcile transactions gl_entries)
     = drop (length transactions) (reconcile transactions gl_entries)"
    unfolding d unfolding eq filter_append gA gB by simp
  have c6: "length (reconcile transactions gl_entries)
     = length transactions
       + length (filter (\<lambda>gl. gl_oid gl \<notin> claimed_gl_ids transactions gl_entries) gl_entries)"
    unfolding eq using len by simp
  from c1 c2 d c4 c5 c6 show ?thesis by blast
qed

subsection \<open>C4: claim exclusivity\<close>

text \<open>
  Claim C4.  Every \<^verbatim>\<open>matched\<close> or \<^verbatim>\<open>amount_mismatch\<close> result consumes a GL entry of
  its own: there are exactly as many such results as there are matched ids when the run
  ends.  Where the \<^verbatim>\<open>gl_id\<close>s tell the GL entries apart, no two such results refer to
  the same one.
\<close>

theorem claim_exclusivity:
  "length (filter claiming (reconcile transactions gl_entries))
     = card (claimed_gl_ids transactions gl_entries)
   \<and> (distinct (map gl_id gl_entries) \<longrightarrow>
        distinct (map res_gl_id (filter claiming (reconcile transactions gl_entries))))"
proof -
  let ?A = "fst (match_loop transactions gl_entries ([], {}))"
  have f: "filter claiming (reconcile transactions gl_entries) = filter claiming ?A"
    by (simp add: reconcile_eq filter_empty_conv)
  have c: "length (filter claiming ?A) = card (claimed_gl_ids transactions gl_entries)"
    using match_loop_card [of "{}" transactions gl_entries "[]"]
    by (simp add: claimed_gl_ids_def)
  have d: "distinct (map res_gl_id (filter claiming ?A))" if "distinct (map gl_id gl_entries)"
  proof (rule match_loop_distinct_refs)
    show "inj_on gl_id (set gl_entries)" using that by (simp add: distinct_map)
  qed simp_all
  show ?thesis unfolding f using c d by blast
qed

theorem claim_exclusivity_witness:
  "length (filter claiming (reconcile [mk_txn ''TXN001'' 100, mk_txn ''TXN002'' 100]
       [mk_gl 1 ''GL001'' 100, mk_gl 2 ''GL002'' 100])) = 2
   \<and> distinct (map gl_id [mk_gl 1 ''GL001'' 100, mk_gl 2 ''GL002'' 100])
   \<and> distinct (map res_gl_id (filter claiming (reconcile [mk_txn ''TXN001'' 100, mk_txn ''TXN002'' 100]
       [mk_gl 1 ''GL001'' 100, mk_gl 2 ''GL002'' 100])))"
proof -
  let ?ts = "[mk_txn ''TXN001'' 100, mk_txn ''TXN002'' 100]"
  let ?gs = "[mk_gl 1 ''GL001'' 100, mk_gl 2 ''GL002'' 100]"
  have e: "float_sub 100 0 = 100" "float_sub 100 100 = 0"
    by (simp_all add: float_sub_def)
  have ev: "claimed_gl_ids ?ts ?gs = {1, 2}"
    by (auto simp: mk_txn_def mk_gl_def claimed_gl_ids_def Let_def e double_0_01)
  have c: "card {1, 2 :: nat} = 2" by simp
  have d: "distinct (map gl_id ?gs)" by (simp add: mk_gl_def)
  from claim_exclusivity [of ?ts ?gs] d show ?thesis unfolding ev c by blast
qed

section \<open>Properties of the persisted collections\<close>



subsection \<open>C5: replacement of the result set\<close>



section \<open>Properties of the anomaly detectors\<close>

subsection \<open>C8: insufficient data\<close>

text \<open>
  Claim C8.  With fewer than 5 transactions the statistical detector returns the empty
  list, and with fewer than 10 the machine-learning detector returns the empty list; both
  return before any library function is called.
\<close>

theorem insufficient_data:
  "(length transactions < 5 \<longrightarrow> detect_anomalies_statistical transactions = [])
   \<and> (length transactions < 10 \<longrightarrow> detect_anomalies_ml lib transactions = [])"
  by (simp add: detect_anomalies_statistical_def detect_anomalies_ml_def)

theorem insufficient_data_witness:
  "detect_anomalies_statistical
       [mk_txn ''TXN001'' 1500, mk_txn ''TXN002'' 2300, mk_txn ''TXN003'' 50000,
        mk_txn ''TXN004'' 750] = []
   \<and> detect_anomalies_ml quiet_lib
       [mk_txn ''TXN001'' 1500, mk_txn ''TXN002'' 2300, mk_txn ''TXN003'' 50000,
        mk_txn ''TXN004'' 750, mk_txn ''TXN005'' 1200, mk_txn ''TXN006'' 1200,
        mk_txn ''TXN007'' 1200, mk_txn ''TXN008'' 1200, mk_txn ''TXN009'' 1200] = []"
  using insufficient_data [of "[mk_txn ''TXN001'' 1500, mk_txn ''TXN002'' 2300,
        mk_txn ''TXN003'' 50000, mk_txn ''TXN004'' 750]" quiet_lib]
    insufficient_data [of "[mk_txn ''TXN001'' 1500, mk_txn ''TXN002'' 2300, mk_txn ''TXN003'' 50000,
        mk_txn ''TXN004'' 750, mk_txn ''TXN005'' 1200, mk_txn ''TXN006'' 1200,
        mk_txn ''TXN007'' 1200, mk_txn ''TXN008'' 1200, mk_txn ''TXN009'' 1200]" quiet_lib]
  by simp

subsection \<open>C10: amounts that are all equal\<close>

lemma z_loop_None: "\<forall>row \<in> set rows. snd row = None \<Longrightarrow> z_loop rows anomalies = anomalies"
  by (induction rows anomalies rule: z_loop.induct) auto

lemma iqr_loop_none:
  "\<forall>txn \<in> set rows. \<not> (amount txn < lower_bound \<or> amount txn > upper_bound) \<Longrightarrow>
     iqr_loop rows lower_bound upper_bound med anomalies = anomalies"
  by (induction rows) auto

lemma zscore_const:
  assumes "\<forall>x \<in> set a. x = c"
  shows "zscore a = map (\<lambda>x. None) a"
proof -
  have "list_all (\<lambda>x. x = hd a) a"
    using assms by (cases a) (auto simp: list_all_iff)
  then show ?thesis by (simp add: zscore_def Let_def)
qed

lemma quantile_const:
  assumes "\<forall>x \<in> set a. x = c" and "a \<noteq> []" and "0 \<le> q" and "q \<le> 1"
  shows "quantile a q = c"
proof -
  let ?n = "length a"
  let ?h = "real (?n - 1) * q"
  have rep: "a = replicate ?n c" using assms(1) by (simp add: replicate_length_same)
  have "sorted (replicate ?n c)" by simp
  then have "sorted a" using rep by simp
  then have srt: "sort a = a" by (simp add: sorted_sort_id)
  have h0: "0 \<le> ?h" using assms(3) by simp
  have h1: "?h \<le> real (?n - 1)" using assms(3,4) by (simp add: mult_left_le)
  have "\<lceil>?h\<rceil> \<le> int (?n - 1)" using h1 by (simp add: ceiling_le_iff)
  then have hi: "nat \<lceil>?h\<rceil> < ?n" using assms(2) by (cases a) auto
  have "\<lfloor>?h\<rfloor> \<le> \<lceil>?h\<rceil>" by (rule floor_le_ceiling)
  then have lo: "nat \<lfloor>?h\<rfloor> < ?n" using hi by linarith
  have "a ! nat \<lfloor>?h\<rfloor> = c" "a ! nat \<lceil>?h\<rceil> = c"
    using assms(1) lo hi nth_mem by blast+
  then show ?thesis by (simp add: quantile_def Let_def srt)
qed

text \<open>
  Claim C10.  For at least 5 transactions whose amounts are all the same value \<open>c\<close>,
  every z-score is not-a-number, so that no comparison with 3 holds; both quartiles are
  \<open>c\<close>, so that the two bounds are \<open>c\<close> and no amount lies outside them; and the
  statistical detector returns the empty list.
\<close>

theorem constant_amounts_no_anomaly:
  assumes "5 \<le> length transactions" and "\<forall>txn \<in> set transactions. amount txn = c"
  shows "zscore (map amount transactions) = map (\<lambda>x. None) (map amount transactions)
       \<and> quantile (map amount transactions) 0.25 = c
       \<and> quantile (map amount transactions) 0.75 = c
       \<and> detect_anomalies_statistical transactions = []"
proof -
  let ?a = "map amount transactions"
  have all: "\<forall>x \<in> set ?a. x = c" using assms(2) by auto
  have ne: "?a \<noteq> []" using assms(1) by auto
  have z: "zscore ?a = map (\<lambda>x. None) ?a" using all by (rule zscore_const)
  have q1: "quantile ?a 0.25 = c" using all ne by (rule quantile_const) simp_all
  have q3: "quantile ?a 0.75 = c" using all ne by (rule quantile_const) simp_all
  have zl: "z_loop (zip transactions (map (map_option abs) (zscore ?a))) [] = []"
    by (rule z_loop_None) (auto simp: z set_zip)
  have il: "iqr_loop transactions c c med [] = []" for med
    by (rule iqr_loop_none) (use assms(2) in auto)
  have "detect_anomalies_statistical transactions = []"
    unfolding detect_anomalies_statistical_def Let_def zl q1 q3
    using assms(1) by (simp add: il)
  with z q1 q3 show ?thesis by blast
qed

theorem constant_amounts_no_anomaly_witness:
  "detect_anomalies_statistical
       [mk_txn ''TXN001'' 1200, mk_txn ''TXN002'' 1200, mk_txn ''TXN003'' 1200,
        mk_txn ''TXN004'' 1200, mk_txn ''TXN005'' 1200] = []"
  using constant_amounts_no_anomaly [of "[mk_txn ''TXN001'' 1200, mk_txn ''TXN002'' 1200,
        mk_txn ''TXN003'' 1200, mk_txn ''TXN004'' 1200, mk_txn ''TXN005'' 1200]" 1200]
  by (simp add: mk_txn_def)

subsection \<open>The loops of the statistical detector\<close>













subsection \<open>The tests on the example documents\<close>













subsection \<open>C6: deduplication in the statistical detector\<close>




subsection \<open>The loops of the machine-learning detector\<close>









subsection \<open>C7: the merge of the two detectors\<close>




section \<open>Properties of the data quality scorer\<close>

lemma round2_vals: "round2 75 = 75" "round2 90 = 90" "round2 100 = 100" "round2 85 = 85"
  by (simp_all add: round2_def Let_def)

lemma negative_sum_cases:
  "negative_sum cells = Inl e \<Longrightarrow> \<exists>s. Str s \<in> set cells"
  "negative_sum cells = Inr n \<Longrightarrow> Num x \<in> set cells \<Longrightarrow> x < 0 \<Longrightarrow> 0 < n"
proof -
  show "\<exists>s. Str s \<in> set cells" if "negative_sum cells = Inl e"
  proof -
    from that obtain c where c: "c \<in> set cells" "case c of Str s \<Rightarrow> True | _ \<Rightarrow> False"
      by (auto simp: negative_sum_def split: if_splits)
    show ?thesis
    proof (cases c)
      case (Str s)
      then show ?thesis using c(1) by auto
    qed (use c(2) in simp_all)
  qed
  assume a: "negative_sum cells = Inr n" "Num x \<in> set cells" "x < 0"
  then have "n = length (filter (\<lambda>c. case c of Num x \<Rightarrow> x < 0 | _ \<Rightarrow> False) cells)"
    by (auto simp: negative_sum_def split: if_splits)
  moreover have "Num x \<in> set (filter (\<lambda>c. case c of Num x \<Rightarrow> x < 0 | _ \<Rightarrow> False) cells)"
    using a by simp
  ultimately show "0 < n" by (metis length_pos_if_in_set)
qed

lemma count_sum_null_row:
  assumes "df_rows df = before @ [replicate n Missing] @ after"
    and "\<forall>row \<in> set (before @ after). length row = n \<and> Missing \<notin> set row"
  shows "count_sum df = (length before + length after) * n"
proof -
  have full: "sum_list (map (\<lambda>row. length (filter (\<lambda>c. c \<noteq> Missing) row)) rs) = length rs * n"
    if "\<forall>row \<in> set rs. length row = n \<and> Missing \<notin> set row" for rs
    using that
  proof (induction rs)
    case Nil
    show ?case by simp
  next
    case (Cons r rs)
    then have "filter (\<lambda>c. c \<noteq> Missing) r = r" by (auto simp: filter_id_conv)
    then show ?case using Cons by simp
  qed
  have "filter (\<lambda>c. c \<noteq> Missing) (replicate n Missing) = []" by simp
  then show ?thesis
    using assms(2) full [of before] full [of after]
    by (simp add: count_sum_def assms(1) algebra_simps)
qed

subsection \<open>C9: quality scoring\<close>

text \<open>
  Claim C9 as stated gives 95.0 for a frame of 4 rows and 5 columns with one row missing
  in every column.  The function counts 15 cells out of 20 and returns 75.0.
\<close>

theorem null_row_completeness_counterexample:
  "map_sum id completeness_score
      (calculate_data_quality (\<lambda>cells. True) null_row_frame ''transactions'') = Inr (Some 75)
   \<and> Some (75 :: real) \<noteq> Some 95"
  by (simp add: calculate_data_quality_def null_row_frame_def Let_def count_sum_def
        column_def negative_sum_def round2_vals)

text \<open>
  Claim C9, amended.  For a frame of 4 rows and 5 columns in which one row is missing in
  every column and the other rows have no missing cell, a report that the function returns
  has the completeness score 75.0.  For a frame whose \<^verbatim>\<open>amount\<close> column holds a negative
  number, the function returns a report whose consistency score is at most 90.0, or raises
  \<^verbatim>\<open>TypeError\<close> because the column also holds a text.
\<close>

theorem quality_scores:
  "(df_rows df = before @ [replicate 5 Missing] @ after \<and> length before + length after = 3
      \<and> length (columns df) = 5
      \<and> (\<forall>row \<in> set (before @ after). length row = 5 \<and> Missing \<notin> set row)
      \<and> calculate_data_quality parses df name = Inr report
     \<longrightarrow> completeness_score report = Some 75)
   \<and> (''amount'' \<in> set (columns df) \<and> Num x \<in> set (column df ''amount'') \<and> x < 0
     \<longrightarrow> (case calculate_data_quality parses df name of
            Inr report \<Rightarrow> consistency_score report \<le> 90
          | Inl e \<Rightarrow> \<exists>s. Str s \<in> set (column df ''amount'')))"
proof (intro conjI impI)
  assume a: "df_rows df = before @ [replicate 5 Missing] @ after \<and> length before + length after = 3
      \<and> length (columns df) = 5
      \<and> (\<forall>row \<in> set (before @ after). length row = 5 \<and> Missing \<notin> set row)
      \<and> calculate_data_quality parses df name = Inr report"
  then have cs: "count_sum df = 15" using count_sum_null_row [of df before 5 after] by simp
  have len: "length (df_rows df) = 4" using a by simp
  from a have "calculate_data_quality parses df name = Inr report" by simp
  then show "completeness_score report = Some 75"
    using a cs len
    by (auto simp: calculate_data_quality_def Let_def round2_vals split: sum.splits if_splits)
next
  assume b: "''amount'' \<in> set (columns df) \<and> Num x \<in> set (column df ''amount'') \<and> x < 0"
  show "case calculate_data_quality parses df name of
            Inr report \<Rightarrow> consistency_score report \<le> 90
          | Inl e \<Rightarrow> \<exists>s. Str s \<in> set (column df ''amount'')"
  proof (cases "negative_sum (column df ''amount'')")
    case (Inl e)
    then show ?thesis using b negative_sum_cases(1) [OF Inl]
      by (simp add: calculate_data_quality_def Let_def)
  next
    case (Inr n)
    then have "0 < n" using b negative_sum_cases(2) by blast
    then show ?thesis using b Inr
      by (simp add: calculate_data_quality_def Let_def round2_vals)
  qed
qed

theorem quality_scores_witness:
  "completeness_score
     (projr (calculate_data_quality (\<lambda>cells. True) null_row_frame ''transactions'')) = Some 75
   \<and> consistency_score
     (projr (calculate_data_quality (\<lambda>cells. True) null_row_frame ''transactions'')) \<le> 90"
proof -
  have ev: "\<exists>report. calculate_data_quality (\<lambda>cells. True) null_row_frame ''transactions'' = Inr report"
    by (simp add: calculate_data_quality_def null_row_frame_def Let_def
        column_def negative_sum_def)
  then obtain report where r:
    "calculate_data_quality (\<lambda>cells. True) null_row_frame ''transactions'' = Inr report" ..
  have h1: "df_rows null_row_frame =
      [[Str ''TXN001'', Str ''2024-01-15'', Num 1500, Str ''ACC123'', Str ''Customer A''],
       [Str ''TXN002'', Str ''2024-01-15'', Num 2300, Str ''ACC124'', Str ''Customer B'']]
      @ [replicate 5 Missing]
      @ [[Str ''TXN004'', Str ''2024-01-16'', Num (- 750), Str ''ACC125'', Str ''Customer C'']]"
    by (simp add: null_row_frame_def numeral_eq_Suc)
  have h2: "Num (- 750) \<in> set (column null_row_frame ''amount'')"
    by (simp add: null_row_frame_def column_def)
  have h3: "''amount'' \<in> set (columns null_row_frame)" "length (columns null_row_frame) = 5"
    by (simp_all add: null_row_frame_def)
  from quality_scores [of null_row_frame
      "[[Str ''TXN001'', Str ''2024-01-15'', Num 1500, Str ''ACC123'', Str ''Customer A''],
        [Str ''TXN002'', Str ''2024-01-15'', Num 2300, Str ''ACC124'', Str ''Customer B'']]"
      "[[Str ''TXN004'', Str ''2024-01-16'', Num (- 750), Str ''ACC125'', Str ''Customer C'']]"
      "\<lambda>cells. True" "''transactions''" report "- 750"]
    h1 h2 h3 r
  show ?thesis by simp
qed

end
